theory Spec2Isabelle
  imports Complex_Main "HOL-Library.Word"
begin

unbundle bit_operations_syntax

section \<open>Conventions of the embedding\<close>

text \<open>
  The sources are \<^verbatim>\<open>grid_cell.h\<close>, \<^verbatim>\<open>grid_sensor.h\<close> and \<^verbatim>\<open>grid_map.h\<close>.
  \<^item> C++ \<^verbatim>\<open>float\<close> and \<^verbatim>\<open>double\<close> values are embedded as reals. The definitions of the
    sections on the cell, the sensor and the grid map read every arithmetic operation of
    the source as the real operation of the same name (the exact reading). For the
    functions whose properties depend on rounding, the subsection on the binary reading
    gives a second definition, with the suffix \<open>_fp\<close>, in which every operation is rounded
    to binary32 or binary64 as the C++ types of its operands demand. Infinities, NaN,
    overflow and subnormal results are outside both readings.
  \<^item> C++ \<^verbatim>\<open>int\<close> values are embedded as unbounded integers; signed overflow (undefined in
    C++) is outside the model.
  \<^item> \<^verbatim>\<open>uint8_t\<close> flag sets are 8-bit words.
  \<^item> The owned array \<^verbatim>\<open>_map_data\<close> is an optional list: \<open>None\<close> is the null pointer,
    \<open>Some d\<close> an allocated array with contents \<open>d\<close>. Element \<open>i\<close> is \<open>d ! nat i\<close>.
  \<^item> Member functions that mutate the object take the object and return the new one.
\<close>

section \<open>Grid cell\<close>

record GridCell =
  log_odds_val :: real

definition reset_value :: "GridCell \<Rightarrow> GridCell" where
  "reset_value c = c\<lparr>log_odds_val := 0\<rparr>"

definition update :: "real \<Rightarrow> GridCell \<Rightarrow> GridCell" where
  "update mea_log_odds c =
     (if (mea_log_odds > 0 \<and> log_odds_val c < 50)
         \<or> (mea_log_odds < 0 \<and> log_odds_val c > - 50)
      then c\<lparr>log_odds_val := log_odds_val c + mea_log_odds\<rparr>
      else c)"

section \<open>Sensor model\<close>

record GridSensor =
  log_odds_hit :: real
  log_odds_miss :: real

definition set_update_factor :: "real \<Rightarrow> real \<Rightarrow> GridSensor \<Rightarrow> GridSensor" where
  "set_update_factor hit_factor miss_factor s =
     s\<lparr>log_odds_hit := ln (hit_factor / miss_factor),
       log_odds_miss := ln ((1 - hit_factor) / (1 - miss_factor))\<rparr>"

definition set_hit :: "GridSensor \<Rightarrow> GridCell \<Rightarrow> GridCell" where
  "set_hit s cell = update (log_odds_hit s) cell"

definition set_miss :: "GridSensor \<Rightarrow> GridCell \<Rightarrow> GridCell" where
  "set_miss s cell = update (log_odds_miss s) cell"

section \<open>Loops\<close>

text \<open>
  \<^verbatim>\<open>for (int i = a; i < n; i++) body\<close> and \<^verbatim>\<open>for (int i = a; i >= 0; i--) body\<close>, with the
  loop body a function of the counter and the state.
\<close>

function for_up :: "int \<Rightarrow> int \<Rightarrow> (int \<Rightarrow> 'a \<Rightarrow> 'a) \<Rightarrow> 'a \<Rightarrow> 'a" where
  "for_up i n body s = (if i < n then for_up (i + 1) n body (body i s) else s)"
  by pat_completeness auto
termination
  by (relation "measure (\<lambda>(i, n, body, s). nat (n - i))") auto

function for_down :: "int \<Rightarrow> (int \<Rightarrow> 'a \<Rightarrow> 'a) \<Rightarrow> 'a \<Rightarrow> 'a" where
  "for_down i body s = (if i \<ge> 0 then for_down (i - 1) body (body i s) else s)"
  by pat_completeness auto
termination
  by (relation "measure (\<lambda>(i, body, s). nat (i + 1))") auto

declare for_up.simps [simp del]
declare for_down.simps [simp del]

section \<open>Grid map\<close>

definition EXT_ZONE :: int where
  "EXT_ZONE = 50"

text \<open>The enumerators of \<^verbatim>\<open>ExtZoneType\<close>, as the \<^verbatim>\<open>uint8_t\<close> values they are used as.\<close>

definition NONE :: "8 word" where "NONE = 0"
definition TOP :: "8 word" where "TOP = push_bit 0 1"
definition LEFT :: "8 word" where "LEFT = push_bit 1 1"
definition DOWN :: "8 word" where "DOWN = push_bit 2 1"
definition RIGHT :: "8 word" where "RIGHT = push_bit 3 1"

record Vector2d =
  vec_x :: real
  vec_y :: real

record Vector3d = Vector2d +
  vec_z :: real

record GridMap =
  resolution :: real
  width :: int
  height :: int
  origin :: Vector2d
  map_data :: "GridCell list option"



definition set_origin :: "Vector3d \<Rightarrow> GridMap \<Rightarrow> GridMap" where
  "set_origin pos g =
     g\<lparr>origin := \<lparr>vec_x = vec_x pos - resolution g * real_of_int (width g) / 2,
                   vec_y = vec_y pos - resolution g * real_of_int (height g) / 2\<rparr>\<rparr>"

datatype error = Bad_array_new_length

text \<open>
  \<^verbatim>\<open>new GridCell[_width * _height]\<close>: a negative length throws; otherwise the array is
  allocated with indeterminate contents, here the values \<open>fresh 0\<close>, \<open>fresh 1\<close>, ... of an
  arbitrary function. The null test after \<^verbatim>\<open>new\<close> only prints and is not modelled.
\<close>

definition allocate_map_data :: "(nat \<Rightarrow> GridCell) \<Rightarrow> GridMap \<Rightarrow> error + GridMap" where
  "allocate_map_data fresh g =
     (if width g * height g < 0 then Inl Bad_array_new_length
      else Inr (g\<lparr>map_data := Some (map fresh [0..<nat (width g * height g)])\<rparr>))"

definition delete_map_data :: "GridMap \<Rightarrow> GridMap" where
  "delete_map_data g = (if map_data g \<noteq> None then g\<lparr>map_data := None\<rparr> else g)"

definition reset_map_data :: "GridMap \<Rightarrow> GridMap" where
  "reset_map_data g =
     (let size = width g * height g in
      case map_data g of
        None \<Rightarrow> g
      | Some d \<Rightarrow>
          g\<lparr>map_data := Some (for_up 0 size (\<lambda>i d. d[nat i := reset_value (d ! nat i)]) d)\<rparr>)"

definition is_in_border :: "GridMap \<Rightarrow> int \<Rightarrow> int \<Rightarrow> bool" where
  "is_in_border g idx_x idx_y =
     (idx_x \<ge> 0 \<and> idx_x < width g \<and> idx_y \<ge> 0 \<and> idx_y < height g)"

text \<open>
  Functions with reference parameters for their results return them in a tuple, after the
  boolean the C++ function returns.
\<close>

text \<open>
  The implicit conversion of a \<^verbatim>\<open>double\<close> to \<^verbatim>\<open>int\<close> discards the fractional part
  (truncation toward zero). A value outside the range of \<^verbatim>\<open>int\<close>, undefined in C++, is
  outside the model, as is the division by a zero resolution that precedes it in
  \<^verbatim>\<open>xy_to_idx\<close>.
\<close>

definition double_to_int :: "real \<Rightarrow> int" where
  "double_to_int r = (if r < 0 then \<lceil>r\<rceil> else \<lfloor>r\<rfloor>)"

definition xy_to_idx :: "GridMap \<Rightarrow> real \<Rightarrow> real \<Rightarrow> bool \<times> int \<times> int" where
  "xy_to_idx g x y =
     (let idx_x = double_to_int ((x - vec_x (origin g)) / resolution g);
          idx_y = double_to_int ((y - vec_y (origin g)) / resolution g)
      in if is_in_border g idx_x idx_y then (True, idx_x, idx_y)
         else (False, max 0 (min idx_x (width g - 1)), max 0 (min idx_y (height g - 1))))"

definition pos_to_idx :: "GridMap \<Rightarrow> Vector3d \<Rightarrow> bool \<times> int \<times> int" where
  "pos_to_idx g pos = xy_to_idx g (vec_x pos) (vec_y pos)"

definition is_in_ext_zone :: "GridMap \<Rightarrow> Vector3d \<Rightarrow> 8 word" where
  "is_in_ext_zone g pos =
     (case pos_to_idx g pos of
        (True, idx_x, idx_y) \<Rightarrow>
          (let t = NONE;
               t = (if idx_x < EXT_ZONE then t OR LEFT else t);
               t = (if idx_x \<ge> width g - EXT_ZONE then t OR RIGHT else t);
               t = (if idx_y < EXT_ZONE then t OR DOWN else t);
               t = (if idx_y \<ge> height g - EXT_ZONE then t OR TOP else t)
           in t)
      | (False, idx_x, idx_y) \<Rightarrow> NONE)"

subsection \<open>Sliding-window extension\<close>

text \<open>
  The bodies of the four inner loops of \<^verbatim>\<open>extend_map\<close>, at column \<open>x\<close> of row \<open>y\<close> of an
  array of row length \<open>w\<close> (and \<open>h\<close> rows for the top shift).
\<close>

definition left_body :: "int \<Rightarrow> int \<Rightarrow> int \<Rightarrow> GridCell list \<Rightarrow> GridCell list" where
  "left_body w y x d =
     (if x < EXT_ZONE then d[nat (y * w + x) := reset_value (d ! nat (y * w + x))]
      else d[nat (y * w + x) :=
               (d ! nat (y * w + x))\<lparr>log_odds_val := log_odds_val (d ! nat (y * w + (x - EXT_ZONE)))\<rparr>])"

definition right_body :: "int \<Rightarrow> int \<Rightarrow> int \<Rightarrow> GridCell list \<Rightarrow> GridCell list" where
  "right_body w y x d =
     (if x \<ge> w - EXT_ZONE then d[nat (y * w + x) := reset_value (d ! nat (y * w + x))]
      else d[nat (y * w + x) :=
               (d ! nat (y * w + x))\<lparr>log_odds_val := log_odds_val (d ! nat (y * w + (x + EXT_ZONE)))\<rparr>])"

definition down_body :: "int \<Rightarrow> int \<Rightarrow> int \<Rightarrow> GridCell list \<Rightarrow> GridCell list" where
  "down_body w y x d =
     (if y < EXT_ZONE then d[nat (y * w + x) := reset_value (d ! nat (y * w + x))]
      else d[nat (y * w + x) :=
               (d ! nat (y * w + x))\<lparr>log_odds_val := log_odds_val (d ! nat ((y - EXT_ZONE) * w + x))\<rparr>])"

definition top_body :: "int \<Rightarrow> int \<Rightarrow> int \<Rightarrow> int \<Rightarrow> GridCell list \<Rightarrow> GridCell list" where
  "top_body w h y x d =
     (if y \<ge> h - EXT_ZONE then d[nat (y * w + x) := reset_value (d ! nat (y * w + x))]
      else d[nat (y * w + x) :=
               (d ! nat (y * w + x))\<lparr>log_odds_val := log_odds_val (d ! nat ((y + EXT_ZONE) * w + x))\<rparr>])"

text \<open>The four loop nests, on the array contents.\<close>

definition shift_left :: "int \<Rightarrow> int \<Rightarrow> GridCell list \<Rightarrow> GridCell list" where
  "shift_left w h = for_up 0 h (\<lambda>y. for_down (w - 1) (left_body w y))"

definition shift_right :: "int \<Rightarrow> int \<Rightarrow> GridCell list \<Rightarrow> GridCell list" where
  "shift_right w h = for_up 0 h (\<lambda>y. for_up 0 w (right_body w y))"

definition shift_down :: "int \<Rightarrow> int \<Rightarrow> GridCell list \<Rightarrow> GridCell list" where
  "shift_down w h = for_down (h - 1) (\<lambda>y. for_up 0 w (down_body w y))"

definition shift_top :: "int \<Rightarrow> int \<Rightarrow> GridCell list \<Rightarrow> GridCell list" where
  "shift_top w h = for_up 0 h (\<lambda>y. for_up 0 w (top_body w h y))"

text \<open>
  The four \<^verbatim>\<open>if\<close> blocks of \<^verbatim>\<open>extend_map\<close>. The array is updated in place; on a null
  pointer (where the C++ behaviour is undefined as soon as a loop body runs) the model
  leaves \<open>None\<close>.
\<close>

definition extend_left :: "GridMap \<Rightarrow> GridMap" where
  "extend_left g =
     g\<lparr>origin := (origin g)\<lparr>vec_x := vec_x (origin g) - real_of_int EXT_ZONE * resolution g\<rparr>,
       map_data := map_option (shift_left (width g) (height g)) (map_data g)\<rparr>"

definition extend_right :: "GridMap \<Rightarrow> GridMap" where
  "extend_right g =
     g\<lparr>origin := (origin g)\<lparr>vec_x := vec_x (origin g) + real_of_int EXT_ZONE * resolution g\<rparr>,
       map_data := map_option (shift_right (width g) (height g)) (map_data g)\<rparr>"

definition extend_down :: "GridMap \<Rightarrow> GridMap" where
  "extend_down g =
     g\<lparr>origin := (origin g)\<lparr>vec_y := vec_y (origin g) - real_of_int EXT_ZONE * resolution g\<rparr>,
       map_data := map_option (shift_down (width g) (height g)) (map_data g)\<rparr>"

definition extend_top :: "GridMap \<Rightarrow> GridMap" where
  "extend_top g =
     g\<lparr>origin := (origin g)\<lparr>vec_y := vec_y (origin g) + real_of_int EXT_ZONE * resolution g\<rparr>,
       map_data := map_option (shift_top (width g) (height g)) (map_data g)\<rparr>"

definition extend_map :: "8 word \<Rightarrow> GridMap \<Rightarrow> GridMap" where
  "extend_map ext_zone_type g =
     (if ext_zone_type = 0 then g
      else
        let g = (if ext_zone_type AND LEFT \<noteq> 0 then extend_left g else g);
            g = (if ext_zone_type AND RIGHT \<noteq> 0 then extend_right g else g);
            g = (if ext_zone_type AND DOWN \<noteq> 0 then extend_down g else g);
            g = (if ext_zone_type AND TOP \<noteq> 0 then extend_top g else g)
        in g)"

definition reset_map :: "(nat \<Rightarrow> GridCell) \<Rightarrow> Vector3d \<Rightarrow> GridMap \<Rightarrow> error + GridMap" where
  "reset_map fresh pos g =
     (case allocate_map_data fresh (delete_map_data (set_origin pos g)) of
        Inl e \<Rightarrow> Inl e
      | Inr g' \<Rightarrow> Inr (reset_map_data g'))"

text \<open>
  The representation invariant of a constructed grid: the array is allocated and holds
  \<open>width * height\<close> cells.
\<close>

definition grid_inv :: "GridMap \<Rightarrow> bool" where
  "grid_inv g =
     (case map_data g of
        None \<Rightarrow> False
      | Some d \<Rightarrow> int (length d) = width g * height g)"

subsection \<open>Binary floating-point reading\<close>

text \<open>
  Rounding to the nearest integer, ties to the even one.
\<close>

definition rne :: "real \<Rightarrow> int" where
  "rne x = (let f = \<lfloor>x\<rfloor>; d = x - real_of_int f in
            if d < 1 / 2 then f else if 1 / 2 < d then f + 1 else if even f then f else f + 1)"

text \<open>
  Rounding of a positive real to \<open>p + 1\<close> significant binary digits: the argument is scaled
  by powers of two into \<open>[2 ^ p, 2 ^ (p + 1))\<close>, rounded to an integer there, and scaled
  back. The exponent is unbounded.
\<close>

function round_sig :: "nat \<Rightarrow> real \<Rightarrow> real" where
  "round_sig p x =
     (if x \<le> 0 then 0
      else if 2 ^ (p + 1) \<le> x then 2 * round_sig p (x / 2)
      else if x < 2 ^ p then round_sig p (2 * x) / 2
      else real_of_int (rne x))"
  by pat_completeness auto
termination
proof (relation "measure (\<lambda>(p, x). nat \<bar>\<lfloor>log 2 x\<rfloor> - int p\<bar>)")
  show "wf (measure (\<lambda>(p, x). nat \<bar>\<lfloor>log 2 x\<rfloor> - int p\<bar>))" by simp
next
  fix p :: nat and x :: real
  assume a: "\<not> x \<le> 0" "2 ^ (p + 1) \<le> x"
  have "real (p + 1) \<le> log 2 x" using a(2) by (intro le_log_of_power) auto
  then have m: "int p + 1 \<le> \<lfloor>log 2 x\<rfloor>" by (simp add: le_floor_iff)
  have "log 2 (x / 2) = log 2 x - 1" using a(1) by (simp add: log_divide)
  then have "\<lfloor>log 2 (x / 2)\<rfloor> = \<lfloor>log 2 x\<rfloor> - 1" by simp
  then show "((p, x / 2), (p, x)) \<in> measure (\<lambda>(p, x). nat \<bar>\<lfloor>log 2 x\<rfloor> - int p\<bar>)"
    using m by simp
next
  fix p :: nat and x :: real
  assume a: "\<not> x \<le> 0" "\<not> 2 ^ (p + 1) \<le> x" "x < 2 ^ p"
  have "log 2 x < real p" using a(1,3) by (simp add: log_less_iff powr_realpow)
  then have m: "\<lfloor>log 2 x\<rfloor> < int p" by (simp add: floor_less_iff)
  have "log 2 (2 * x) = log 2 x + 1" using a(1) by (simp add: log_mult)
  then have "\<lfloor>log 2 (2 * x)\<rfloor> = \<lfloor>log 2 x\<rfloor> + 1" by simp
  then show "((p, 2 * x), (p, x)) \<in> measure (\<lambda>(p, x). nat \<bar>\<lfloor>log 2 x\<rfloor> - int p\<bar>)"
    using m by simp
qed

declare round_sig.simps [simp del]

text \<open>
  Rounding of a real to \<open>p\<close> stored fraction bits, round to nearest, ties to even:
  \<open>fl32\<close> is the result of a binary32 (\<^verbatim>\<open>float\<close>) operation with that exact value, \<open>fl64\<close>
  of a binary64 (\<^verbatim>\<open>double\<close>) operation. Each operation is rounded on its own (no
  contraction, no extended intermediate precision). Conversions of an \<^verbatim>\<open>int\<close> or a
  \<^verbatim>\<open>float\<close> to \<^verbatim>\<open>double\<close>, and of the constant \<^verbatim>\<open>EXT_ZONE\<close> to \<^verbatim>\<open>float\<close>, are exact.
\<close>

definition fl :: "nat \<Rightarrow> real \<Rightarrow> real" where
  "fl p x = (if x < 0 then - round_sig p (- x) else round_sig p x)"

definition fl32 :: "real \<Rightarrow> real" where "fl32 = fl 23"
definition fl64 :: "real \<Rightarrow> real" where "fl64 = fl 52"

text \<open>
  \<^verbatim>\<open>idx_to_xy\<close>: the sum \<^verbatim>\<open>idx + 0.5\<close>, the product with the resolution and the sum with the
  origin are three binary64 operations.
\<close>

definition idx_to_xy_fp :: "GridMap \<Rightarrow> int \<Rightarrow> int \<Rightarrow> bool \<times> real \<times> real" where
  "idx_to_xy_fp g idx_x idx_y =
     (let x = fl64 (vec_x (origin g) + fl64 (resolution g * fl64 (real_of_int idx_x + 0.5)));
          y = fl64 (vec_y (origin g) + fl64 (resolution g * fl64 (real_of_int idx_y + 0.5)))
      in (is_in_border g idx_x idx_y, x, y))"

text \<open>
  \<^verbatim>\<open>xy_to_idx\<close>: the difference and the quotient are binary64 operations; then the
  conversion to \<^verbatim>\<open>int\<close>.
\<close>

definition xy_to_idx_fp :: "GridMap \<Rightarrow> real \<Rightarrow> real \<Rightarrow> bool \<times> int \<times> int" where
  "xy_to_idx_fp g x y =
     (let idx_x = double_to_int (fl64 (fl64 (x - vec_x (origin g)) / resolution g));
          idx_y = double_to_int (fl64 (fl64 (y - vec_y (origin g)) / resolution g))
      in if is_in_border g idx_x idx_y then (True, idx_x, idx_y)
         else (False, max 0 (min idx_x (width g - 1)), max 0 (min idx_y (height g - 1))))"






subsection \<open>Auxiliary definitions for the proofs\<close>

text \<open>The cell at column \<open>x\<close> of row \<open>y\<close> of array contents with row length \<open>w\<close>.\<close>

definition cell2 :: "int \<Rightarrow> GridCell list \<Rightarrow> int \<Rightarrow> int \<Rightarrow> GridCell" where
  "cell2 w d x y = d ! nat (y * w + x)"

text \<open>A small grid with distinct cell values, for concrete instances of the theorems.\<close>

definition sample_grid :: GridMap where
  "sample_grid =
     \<lparr>resolution = 1 / 10, width = 60, height = 2,
      origin = \<lparr>vec_x = - 3, vec_y = - (1 / 10)\<rparr>,
      map_data = Some (map (\<lambda>i. \<lparr>log_odds_val = real i\<rparr>) [0..<120])\<rparr>"

text \<open>
  The grid of the default constructor arguments: resolution \<open>0.1\<close>, \<open>300 \<times> 300\<close> cells,
  centred on \<open>(0, 0)\<close>, every cell at the prior.
\<close>

definition default_grid :: GridMap where
  "default_grid =
     \<lparr>resolution = 1 / 10, width = 300, height = 300,
      origin = \<lparr>vec_x = - 15, vec_y = - 15\<rparr>,
      map_data = Some (replicate 90000 \<lparr>log_odds_val = 0\<rparr>)\<rparr>"

text \<open>
  Two grids with the binary32 resolution \<open>0.1f = 13421773 / 2 ^ 27\<close>: the grid of
  \<^verbatim>\<open>GridMap(0.1f, 60, 2)\<close> (centre \<open>(0, 0)\<close>, hence origin \<open>(-3, -0.1f)\<close>) after updates
  that left distinct values in its cells, and the grid constructed by
  \<^verbatim>\<open>GridMap(0.1f, 300, 300, (1e17, 0, 0))\<close> (origin \<open>(99999999999999984, -15)\<close>).
\<close>

definition float_grid :: GridMap where
  "float_grid =
     \<lparr>resolution = 13421773 / 134217728, width = 60, height = 2,
      origin = \<lparr>vec_x = - 3, vec_y = - (13421773 / 134217728)\<rparr>,
      map_data = Some (map (\<lambda>i. \<lparr>log_odds_val = real i\<rparr>) [0..<120])\<rparr>"

definition far_grid :: GridMap where
  "far_grid =
     \<lparr>resolution = 13421773 / 134217728, width = 300, height = 300,
      origin = \<lparr>vec_x = 99999999999999984, vec_y = - 15\<rparr>,
      map_data = Some (replicate 90000 \<lparr>log_odds_val = 0\<rparr>)\<rparr>"

section \<open>Properties of the cell update\<close>

text \<open>
  Claim C4. The update is a saturating accumulator with asymmetric bounds: the increment
  \<open>d\<close> is added to the value \<open>v\<close> when \<open>d > 0\<close> and \<open>v < 50\<close>, or \<open>d < 0\<close> and \<open>v > -50\<close>;
  in every other case the cell is unchanged. In particular a negative increment is applied
  to a cell whose value is at or above \<open>50\<close>.
\<close>

theorem update_saturating:
  "((d > 0 \<and> log_odds_val c < 50) \<or> (d < 0 \<and> log_odds_val c > - 50)
      \<longrightarrow> update d c = c\<lparr>log_odds_val := log_odds_val c + d\<rparr>)
   \<and> (\<not> ((d > 0 \<and> log_odds_val c < 50) \<or> (d < 0 \<and> log_odds_val c > - 50))
      \<longrightarrow> update d c = c)
   \<and> (d < 0 \<and> 50 \<le> log_odds_val c
      \<longrightarrow> log_odds_val (update d c) = log_odds_val c + d)"
  by (simp add: update_def)

theorem update_saturating_witness:
  "update 3 \<lparr>log_odds_val = 49\<rparr> = \<lparr>log_odds_val = 52\<rparr>
   \<and> update 3 \<lparr>log_odds_val = 52\<rparr> = \<lparr>log_odds_val = 52\<rparr>
   \<and> log_odds_val (update (- 3) \<lparr>log_odds_val = 52\<rparr>) = 49"
  using update_saturating [of 3 "\<lparr>log_odds_val = 49\<rparr>"]
    update_saturating [of 3 "\<lparr>log_odds_val = 52\<rparr>"]
    update_saturating [of "- 3" "\<lparr>log_odds_val = 52\<rparr>"]
  by simp

text \<open>
  Claim C9. An update by a zero increment leaves the cell unchanged. A sensor configured
  with equal (non-zero) hit and miss factors has hit increment \<open>0\<close>, and its \<open>set_hit\<close>
  leaves every cell unchanged.
\<close>

theorem update_zero_noop:
  "update 0 c = c
   \<and> (h \<noteq> 0 \<longrightarrow>
        log_odds_hit (set_update_factor h h s) = 0
        \<and> set_hit (set_update_factor h h s) c = c)"
  by (simp add: update_def set_update_factor_def set_hit_def)

theorem update_zero_noop_witness:
  "update 0 \<lparr>log_odds_val = 7\<rparr> = \<lparr>log_odds_val = 7\<rparr>
   \<and> log_odds_hit (set_update_factor (1/2) (1/2) \<lparr>log_odds_hit = 1, log_odds_miss = 1\<rparr>) = 0
   \<and> set_hit (set_update_factor (1/2) (1/2) \<lparr>log_odds_hit = 1, log_odds_miss = 1\<rparr>)
        \<lparr>log_odds_val = 7\<rparr> = \<lparr>log_odds_val = 7\<rparr>"
  using update_zero_noop [of "\<lparr>log_odds_val = 7\<rparr>" "1/2" "\<lparr>log_odds_hit = 1, log_odds_miss = 1\<rparr>"]
  by simp

section \<open>Loops and array indexing: auxiliary facts\<close>

lemma GridCell_update_eq [simp]: "(c::GridCell)\<lparr>log_odds_val := v\<rparr> = \<lparr>log_odds_val = v\<rparr>"
  by (cases c) simp

lemma GridCell_collapse [simp]: "\<lparr>log_odds_val = log_odds_val (c::GridCell)\<rparr> = c"
  by (cases c) simp

lemma idx_less:
  assumes "0 \<le> x" "x < w" "0 \<le> y" "y < (h::int)"
  shows "y * w + x < w * h"
proof -
  have "y + 1 \<le> h" using assms by simp
  then have "(y + 1) * w \<le> h * w" using assms by (intro mult_right_mono) auto
  then show ?thesis using assms by (simp add: algebra_simps)
qed

lemma idx_inj:
  assumes "0 \<le> x" "x < w" "0 \<le> x'" "x' < (w::int)" "y * w + x = y' * w + x'"
  shows "x = x' \<and> y = y'"
proof -
  have w: "0 < w" using assms by linarith
  have "(x + y * w) div w = y" "(x' + y' * w) div w = y'"
    using assms w by (simp_all add: div_pos_pos_trivial)
  moreover have "x + y * w = x' + y' * w" using assms by (simp add: add.commute)
  ultimately have "y = y'" by simp
  then show ?thesis using assms by simp
qed

lemma cell2_update:
  assumes "int (length d) = w * h" "0 \<le> x" "x < w" "0 \<le> y" "y < h"
    "0 \<le> x'" "x' < w" "0 \<le> y'" "y' < h"
  shows "cell2 w (d[nat (y * w + x) := v]) x' y' = (if x' = x \<and> y' = y then v else cell2 w d x' y')"
proof -
  have lt: "nat (y * w + x) < length d"
    using idx_less [of x w y h] assms by (simp add: nat_less_iff)
  have nn: "0 \<le> y * w + x" "0 \<le> y' * w + x'" using assms by simp_all
  show ?thesis
  proof (cases "x' = x \<and> y' = y")
    case True
    then show ?thesis using lt by (simp add: cell2_def)
  next
    case False
    then have "y * w + x \<noteq> y' * w + x'" using idx_inj [of x w x' y y'] assms by auto
    then have "nat (y * w + x) \<noteq> nat (y' * w + x')" using nn by linarith
    then show ?thesis using False by (auto simp add: cell2_def)
  qed
qed

lemma for_up_stop: "n \<le> i \<Longrightarrow> for_up i n body s = s"
  by (simp add: for_up.simps)

lemma for_up_step: "i < n \<Longrightarrow> for_up i n body s = for_up (i + 1) n body (body i s)"
  by (subst for_up.simps) simp

lemma for_down_stop: "i < 0 \<Longrightarrow> for_down i body s = s"
  by (simp add: for_down.simps)

lemma for_down_step: "0 \<le> i \<Longrightarrow> for_down i body s = for_down (i - 1) body (body i s)"
  by (subst for_down.simps) simp

lemma for_up_invariant:
  assumes "P s" "\<And>j t. i \<le> j \<Longrightarrow> j < n \<Longrightarrow> P t \<Longrightarrow> P (body j t)"
  shows "P (for_up i n body s)"
  using assms
proof (induction i n body s rule: for_up.induct)
  case (1 i n body s)
  show ?case
  proof (cases "i < n")
    case True
    have "P (for_up (i + 1) n body (body i s))"
      using True "1.prems" by (intro "1.IH") auto
    then show ?thesis using True by (simp add: for_up_step)
  next
    case False
    then show ?thesis using "1.prems" by (simp add: for_up_stop)
  qed
qed

lemma for_down_invariant:
  assumes "P s" "\<And>j t. 0 \<le> j \<Longrightarrow> j \<le> i \<Longrightarrow> P t \<Longrightarrow> P (body j t)"
  shows "P (for_down i body s)"
  using assms
proof (induction i body s rule: for_down.induct)
  case (1 i body s)
  show ?case
  proof (cases "0 \<le> i")
    case True
    have "P (for_down (i - 1) body (body i s))"
      using True "1.prems" by (intro "1.IH") auto
    then show ?thesis using True by (simp add: for_down_step)
  next
    case False
    then show ?thesis using "1.prems" by (simp add: for_down_stop)
  qed
qed

lemma left_body_eq:
  "left_body w y x d =
     d[nat (y * w + x) := (if x < EXT_ZONE then \<lparr>log_odds_val = 0\<rparr> else cell2 w d (x - EXT_ZONE) y)]"
  by (simp add: left_body_def reset_value_def cell2_def)

lemma right_body_eq:
  "right_body w y x d =
     d[nat (y * w + x) := (if x \<ge> w - EXT_ZONE then \<lparr>log_odds_val = 0\<rparr> else cell2 w d (x + EXT_ZONE) y)]"
  by (simp add: right_body_def reset_value_def cell2_def)

lemma down_body_eq:
  "down_body w y x d =
     d[nat (y * w + x) := (if y < EXT_ZONE then \<lparr>log_odds_val = 0\<rparr> else cell2 w d x (y - EXT_ZONE))]"
  by (simp add: down_body_def reset_value_def cell2_def)

lemma top_body_eq:
  "top_body w h y x d =
     d[nat (y * w + x) := (if y \<ge> h - EXT_ZONE then \<lparr>log_odds_val = 0\<rparr> else cell2 w d x (y + EXT_ZONE))]"
  by (simp add: top_body_def reset_value_def cell2_def)

section \<open>The shifts, cell by cell\<close>

lemma EXT_ZONE_nonneg: "0 \<le> EXT_ZONE"
  by (simp add: EXT_ZONE_def)

lemma left_row:
  assumes "int (length d) = w * h" "0 \<le> y" "y < h" "i < w"
  shows "length (for_down i (left_body w y) d) = length d \<and>
     (\<forall>x' y'. 0 \<le> x' \<longrightarrow> x' < w \<longrightarrow> 0 \<le> y' \<longrightarrow> y' < h \<longrightarrow>
        cell2 w (for_down i (left_body w y) d) x' y' =
          (if y' = y \<and> x' \<le> i
           then (if x' < EXT_ZONE then \<lparr>log_odds_val = 0\<rparr> else cell2 w d (x' - EXT_ZONE) y')
           else cell2 w d x' y'))"
  using assms
proof (induction i "left_body w y" d rule: for_down.induct)
  case (1 i d)
  show ?case
  proof (cases "0 \<le> i")
    case True
    define d' where "d' = left_body w y i d"
    have len': "int (length d') = w * h" using "1.prems" by (simp add: d'_def left_body_eq)
    have upd: "\<And>a b. 0 \<le> a \<Longrightarrow> a < w \<Longrightarrow> 0 \<le> b \<Longrightarrow> b < h \<Longrightarrow>
        cell2 w d' a b = (if a = i \<and> b = y
           then (if i < EXT_ZONE then \<lparr>log_odds_val = 0\<rparr> else cell2 w d (i - EXT_ZONE) y)
           else cell2 w d a b)"
      using "1.prems" True unfolding d'_def left_body_eq
      by (subst cell2_update [where h = h]) auto
    have IH: "length (for_down (i - 1) (left_body w y) d') = length d' \<and>
     (\<forall>x' y'. 0 \<le> x' \<longrightarrow> x' < w \<longrightarrow> 0 \<le> y' \<longrightarrow> y' < h \<longrightarrow>
        cell2 w (for_down (i - 1) (left_body w y) d') x' y' =
          (if y' = y \<and> x' \<le> i - 1
           then (if x' < EXT_ZONE then \<lparr>log_odds_val = 0\<rparr> else cell2 w d' (x' - EXT_ZONE) y')
           else cell2 w d' x' y'))"
      unfolding d'_def using True "1.prems" len' [unfolded d'_def]
      by (intro "1.hyps") auto
    have step: "for_down i (left_body w y) d = for_down (i - 1) (left_body w y) d'"
      using True by (simp add: for_down_step d'_def)
    have "length d' = length d" by (simp add: d'_def left_body_eq)
    then show ?thesis
      unfolding step using IH EXT_ZONE_nonneg by (auto simp: upd)
  next
    case False
    then show ?thesis by (simp add: for_down_stop)
  qed
qed


lemma shift_left_rows:
  assumes "int (length d) = w * h" "0 \<le> j"
  shows "length (for_up j h (\<lambda>y. for_down (w - 1) (left_body w y)) d) = length d \<and>
     (\<forall>x' y'. 0 \<le> x' \<longrightarrow> x' < w \<longrightarrow> 0 \<le> y' \<longrightarrow> y' < h \<longrightarrow>
        cell2 w (for_up j h (\<lambda>y. for_down (w - 1) (left_body w y)) d) x' y' =
          (if j \<le> y'
           then (if x' < EXT_ZONE then \<lparr>log_odds_val = 0\<rparr> else cell2 w d (x' - EXT_ZONE) y')
           else cell2 w d x' y'))"
  using assms
proof (induction j h "\<lambda>y. for_down (w - 1) (left_body w y)" d rule: for_up.induct)
  case (1 j h d)
  show ?case
  proof (cases "j < h")
    case True
    define d' where "d' = for_down (w - 1) (left_body w j) d"
    have row: "length d' = length d \<and>
     (\<forall>x' y'. 0 \<le> x' \<longrightarrow> x' < w \<longrightarrow> 0 \<le> y' \<longrightarrow> y' < h \<longrightarrow>
        cell2 w d' x' y' =
          (if y' = j \<and> x' \<le> w - 1
           then (if x' < EXT_ZONE then \<lparr>log_odds_val = 0\<rparr> else cell2 w d (x' - EXT_ZONE) y')
           else cell2 w d x' y'))"
      unfolding d'_def using True "1.prems" by (intro left_row) auto
    have IH: "length (for_up (j + 1) h (\<lambda>y. for_down (w - 1) (left_body w y)) d') = length d' \<and>
     (\<forall>x' y'. 0 \<le> x' \<longrightarrow> x' < w \<longrightarrow> 0 \<le> y' \<longrightarrow> y' < h \<longrightarrow>
        cell2 w (for_up (j + 1) h (\<lambda>y. for_down (w - 1) (left_body w y)) d') x' y' =
          (if j + 1 \<le> y'
           then (if x' < EXT_ZONE then \<lparr>log_odds_val = 0\<rparr> else cell2 w d' (x' - EXT_ZONE) y')
           else cell2 w d' x' y'))"
      unfolding d'_def using True "1.prems" row [unfolded d'_def]
      by (intro "1.hyps") auto
    have step: "for_up j h (\<lambda>y. for_down (w - 1) (left_body w y)) d
        = for_up (j + 1) h (\<lambda>y. for_down (w - 1) (left_body w y)) d'"
      using True by (simp add: for_up_step d'_def)
    show ?thesis
      unfolding step using IH row EXT_ZONE_nonneg by auto
  next
    case False
    then show ?thesis by (simp add: for_up_stop)
  qed
qed

lemma shift_left_cells:
  assumes "int (length d) = w * h" "0 \<le> x" "x < w" "0 \<le> y" "y < h"
  shows "cell2 w (shift_left w h d) x y =
           (if x < EXT_ZONE then \<lparr>log_odds_val = 0\<rparr> else cell2 w d (x - EXT_ZONE) y)"
  using shift_left_rows [of d w h 0] assms by (simp add: shift_left_def)





lemma down_row:
  assumes "int (length d) = w * h" "0 \<le> y" "y < h" "0 \<le> i"
  shows "length (for_up i w (down_body w y) d) = length d \<and>
     (\<forall>x' y'. 0 \<le> x' \<longrightarrow> x' < w \<longrightarrow> 0 \<le> y' \<longrightarrow> y' < h \<longrightarrow>
        cell2 w (for_up i w (down_body w y) d) x' y' =
          (if y' = y \<and> i \<le> x'
           then (if y' < EXT_ZONE then \<lparr>log_odds_val = 0\<rparr> else cell2 w d x' (y' - EXT_ZONE))
           else cell2 w d x' y'))"
  using assms
proof (induction i w "down_body w y" d rule: for_up.induct)
  case (1 i w d)
  show ?case
  proof (cases "i < w")
    case True
    define d' where "d' = down_body w y i d"
    have len': "int (length d') = w * h" using "1.prems" by (simp add: d'_def down_body_eq)
    have upd: "\<And>a b. 0 \<le> a \<Longrightarrow> a < w \<Longrightarrow> 0 \<le> b \<Longrightarrow> b < h \<Longrightarrow>
        cell2 w d' a b = (if a = i \<and> b = y
           then (if y < EXT_ZONE then \<lparr>log_odds_val = 0\<rparr> else cell2 w d i (y - EXT_ZONE))
           else cell2 w d a b)"
      using "1.prems" True unfolding d'_def down_body_eq
      by (subst cell2_update [where h = h]) auto
    have IH: "length (for_up (i + 1) w (down_body w y) d') = length d' \<and>
     (\<forall>x' y'. 0 \<le> x' \<longrightarrow> x' < w \<longrightarrow> 0 \<le> y' \<longrightarrow> y' < h \<longrightarrow>
        cell2 w (for_up (i + 1) w (down_body w y) d') x' y' =
          (if y' = y \<and> i + 1 \<le> x'
           then (if y' < EXT_ZONE then \<lparr>log_odds_val = 0\<rparr> else cell2 w d' x' (y' - EXT_ZONE))
           else cell2 w d' x' y'))"
      unfolding d'_def using True "1.prems" len' [unfolded d'_def]
      by (intro "1.hyps") auto
    have step: "for_up i w (down_body w y) d = for_up (i + 1) w (down_body w y) d'"
      using True by (simp add: for_up_step d'_def)
    have "length d' = length d" by (simp add: d'_def down_body_eq)
    then show ?thesis
      unfolding step using IH EXT_ZONE_nonneg "1.prems" by (auto simp: upd)
  next
    case False
    then show ?thesis by (simp add: for_up_stop)
  qed
qed

lemma shift_down_rows:
  assumes "int (length d) = w * h" "j < h"
  shows "length (for_down j (\<lambda>y. for_up 0 w (down_body w y)) d) = length d \<and>
     (\<forall>x' y'. 0 \<le> x' \<longrightarrow> x' < w \<longrightarrow> 0 \<le> y' \<longrightarrow> y' < h \<longrightarrow>
        cell2 w (for_down j (\<lambda>y. for_up 0 w (down_body w y)) d) x' y' =
          (if y' \<le> j
           then (if y' < EXT_ZONE then \<lparr>log_odds_val = 0\<rparr> else cell2 w d x' (y' - EXT_ZONE))
           else cell2 w d x' y'))"
  using assms
proof (induction j "\<lambda>y. for_up 0 w (down_body w y)" d rule: for_down.induct)
  case (1 j d)
  show ?case
  proof (cases "0 \<le> j")
    case True
    define d' where "d' = for_up 0 w (down_body w j) d"
    have row: "length d' = length d \<and>
     (\<forall>x' y'. 0 \<le> x' \<longrightarrow> x' < w \<longrightarrow> 0 \<le> y' \<longrightarrow> y' < h \<longrightarrow>
        cell2 w d' x' y' =
          (if y' = j \<and> 0 \<le> x'
           then (if y' < EXT_ZONE then \<lparr>log_odds_val = 0\<rparr> else cell2 w d x' (y' - EXT_ZONE))
           else cell2 w d x' y'))"
      unfolding d'_def using True "1.prems" by (intro down_row) auto
    have IH: "length (for_down (j - 1) (\<lambda>y. for_up 0 w (down_body w y)) d') = length d' \<and>
     (\<forall>x' y'. 0 \<le> x' \<longrightarrow> x' < w \<longrightarrow> 0 \<le> y' \<longrightarrow> y' < h \<longrightarrow>
        cell2 w (for_down (j - 1) (\<lambda>y. for_up 0 w (down_body w y)) d') x' y' =
          (if y' \<le> j - 1
           then (if y' < EXT_ZONE then \<lparr>log_odds_val = 0\<rparr> else cell2 w d' x' (y' - EXT_ZONE))
           else cell2 w d' x' y'))"
      unfolding d'_def using True "1.prems" row [unfolded d'_def]
      by (intro "1.hyps") auto
    have step: "for_down j (\<lambda>y. for_up 0 w (down_body w y)) d
        = for_down (j - 1) (\<lambda>y. for_up 0 w (down_body w y)) d'"
      using True by (simp add: for_down_step d'_def)
    show ?thesis
      unfolding step using IH row EXT_ZONE_nonneg by auto
  next
    case False
    then show ?thesis by (simp add: for_down_stop)
  qed
qed

lemma shift_down_cells:
  assumes "int (length d) = w * h" "0 \<le> x" "x < w" "0 \<le> y" "y < h"
  shows "cell2 w (shift_down w h d) x y =
           (if y < EXT_ZONE then \<lparr>log_odds_val = 0\<rparr> else cell2 w d x (y - EXT_ZONE))"
  using shift_down_rows [of d w h "h - 1"] assms by (simp add: shift_down_def)

lemma length_shift_left [simp]: "length (shift_left w h d) = length d"
  unfolding shift_left_def
  by (rule for_up_invariant, simp, rule for_down_invariant) (simp_all add: left_body_eq)

lemma length_shift_right [simp]: "length (shift_right w h d) = length d"
  unfolding shift_right_def
  by (rule for_up_invariant, simp, rule for_up_invariant) (simp_all add: right_body_eq)

lemma length_shift_down [simp]: "length (shift_down w h d) = length d"
  unfolding shift_down_def
  by (rule for_down_invariant, simp, rule for_up_invariant) (simp_all add: down_body_eq)

lemma length_shift_top [simp]: "length (shift_top w h d) = length d"
  unfolding shift_top_def
  by (rule for_up_invariant, simp, rule for_up_invariant) (simp_all add: top_body_eq)

lemma cells_eqI:
  assumes "int (length d1) = w * h" "int (length d2) = w * h" "0 \<le> w"
    and "\<And>x y. 0 \<le> x \<Longrightarrow> x < w \<Longrightarrow> 0 \<le> y \<Longrightarrow> y < h \<Longrightarrow> cell2 w d1 x y = cell2 w d2 x y"
  shows "d1 = d2"
proof (rule nth_equalityI)
  show "length d1 = length d2" using assms(1,2) by simp
next
  fix k assume k: "k < length d1"
  then have kk: "int k < w * h" using assms(1) by simp
  show "d1 ! k = d2 ! k"
  proof (cases "0 < w")
    case True
    define x where "x = int k mod w"
    define y where "y = int k div w"
    have x: "0 \<le> x" "x < w" using True by (simp_all add: x_def)
    have y0: "0 \<le> y" using True by (simp add: y_def pos_imp_zdiv_nonneg_iff)
    have "w * y + x = int k" by (simp add: x_def y_def)
    then have le: "w * y \<le> int k" using x by linarith
    have "y < h"
    proof (rule ccontr)
      assume "\<not> y < h"
      then have "w * h \<le> w * y" using True by (intro mult_left_mono) auto
      then show False using le kk by linarith
    qed
    moreover have "nat (y * w + x) = k" by (simp add: x_def y_def)
    ultimately show ?thesis using assms(4) [of x y] x y0 by (simp add: cell2_def)
  next
    case False
    then have "w = 0" using assms(3) by simp
    then show ?thesis using kk by simp
  qed
qed

section \<open>Properties of the extension\<close>

lemma grid_invE:
  assumes "grid_inv g"
  obtains d where "map_data g = Some d" "int (length d) = width g * height g"
  using assms by (auto simp: grid_inv_def split: option.splits)





lemma shift_left_down_commute:
  assumes "int (length d) = w * h"
  shows "shift_down w h (shift_left w h d) = shift_left w h (shift_down w h d)"
proof (cases "0 < w \<and> 0 < h")
  case True
  show ?thesis
  proof (rule cells_eqI [where w = w and h = h])
    fix x y assume xy: "0 \<le> x" "x < w" "0 \<le> y" "y < h"
    have l: "int (length (shift_left w h d)) = w * h" "int (length (shift_down w h d)) = w * h"
      using assms by simp_all
    show "cell2 w (shift_down w h (shift_left w h d)) x y
        = cell2 w (shift_left w h (shift_down w h d)) x y"
      using xy assms l EXT_ZONE_nonneg
      by (simp add: shift_down_cells shift_left_cells)
  qed (use assms True in simp_all)
next
  case False
  show ?thesis
  proof (cases "h \<le> 0")
    case True
    then show ?thesis by (simp add: shift_left_def shift_down_def for_up_stop for_down_stop)
  next
    case h: False
    then have "w \<le> 0" using False by simp
    then have "w * h \<le> 0" using h by (simp add: mult_le_0_iff)
    then have "int (length d) \<le> 0" using assms by simp
    then have "length d = 0" by simp
    then have "length (shift_down w h (shift_left w h d)) = 0"
      "length (shift_left w h (shift_down w h d)) = 0" by simp_all
    then have "shift_down w h (shift_left w h d) = []" "shift_left w h (shift_down w h d) = []"
      by (simp_all only: length_0_conv)
    then show ?thesis by (simp only:)
  qed
qed

text \<open>
  Claim C7. Axis independence of the combined extension. On a grid that satisfies the
  representation invariant, one call with both \<open>LEFT\<close> and \<open>DOWN\<close> set gives the same grid
  (origin and cell array) as the call with \<open>LEFT\<close> followed by the call with \<open>DOWN\<close>, and
  the same as these two calls in the opposite order; a call with no flag set returns the
  grid unchanged.
\<close>

theorem extend_left_down_independent:
  assumes "grid_inv g"
  shows "extend_map (LEFT OR DOWN) g = extend_map DOWN (extend_map LEFT g)
       \<and> extend_map (LEFT OR DOWN) g = extend_map LEFT (extend_map DOWN g)
       \<and> extend_map NONE g = g"
proof -
  obtain d where d: "map_data g = Some d" "int (length d) = width g * height g"
    using assms by (rule grid_invE)
  have both: "extend_map (LEFT OR DOWN) g = extend_down (extend_left g)"
    by (simp add: extend_map_def LEFT_def DOWN_def RIGHT_def TOP_def)
  have l: "extend_map LEFT g' = extend_left g'" for g'
    by (simp add: extend_map_def LEFT_def DOWN_def RIGHT_def TOP_def)
  have dn: "extend_map DOWN g' = extend_down g'" for g'
    by (simp add: extend_map_def LEFT_def DOWN_def RIGHT_def TOP_def)
  have comm: "extend_down (extend_left g) = extend_left (extend_down g)"
    using d shift_left_down_commute [of d "width g" "height g"]
    by (simp add: extend_down_def extend_left_def)
  show ?thesis
    unfolding both l dn using comm by (simp add: extend_map_def NONE_def)
qed

theorem extend_left_down_independent_witness:
  "grid_inv sample_grid
   \<and> extend_map (LEFT OR DOWN) sample_grid = extend_map DOWN (extend_map LEFT sample_grid)
   \<and> extend_map (LEFT OR DOWN) sample_grid = extend_map LEFT (extend_map DOWN sample_grid)
   \<and> extend_map NONE sample_grid = sample_grid"
proof -
  have inv: "grid_inv sample_grid"
    by (simp add: sample_grid_def grid_inv_def)
  show ?thesis
    using inv extend_left_down_independent [OF inv] by blast
qed

section \<open>Binary rounding: auxiliary facts\<close>

lemma rne_error: "\<bar>real_of_int (rne x) - x\<bar> \<le> 1 / 2"
  unfolding rne_def Let_def by (auto; linarith)

lemma round_sig_error:
  assumes "0 < x"
  shows "\<bar>round_sig p x - x\<bar> \<le> x / 2 ^ (p + 1)"
  using assms
proof (induction p x rule: round_sig.induct)
  case (1 p x)
  consider (big) "2 ^ (p + 1) \<le> x" | (small) "x < 2 ^ p" | (mid) "2 ^ p \<le> x" "x < 2 ^ (p + 1)"
    by linarith
  then show ?case
  proof cases
    case big
    have "\<bar>round_sig p (x / 2) - x / 2\<bar> \<le> (x / 2) / 2 ^ (p + 1)"
      using "1.prems" big by (intro "1.IH"(1)) auto
    moreover have "round_sig p x = 2 * round_sig p (x / 2)"
      using "1.prems" big by (subst round_sig.simps) simp
    moreover have "\<bar>2 * round_sig p (x / 2) - x\<bar> = 2 * \<bar>round_sig p (x / 2) - x / 2\<bar>"
      by (simp add: abs_if)
    ultimately show ?thesis by simp
  next
    case small
    have "(2::real) ^ p \<le> 2 ^ (p + 1)" by simp
    then have nb: "\<not> 2 ^ (p + 1) \<le> x" using small by linarith
    have "\<bar>round_sig p (2 * x) - 2 * x\<bar> \<le> (2 * x) / 2 ^ (p + 1)"
      using "1.prems" small nb by (intro "1.IH"(2)) auto
    moreover have "round_sig p x = round_sig p (2 * x) / 2"
      using "1.prems" small nb by (subst round_sig.simps) simp
    moreover have "\<bar>round_sig p (2 * x) / 2 - x\<bar> = \<bar>round_sig p (2 * x) - 2 * x\<bar> / 2"
      by (simp add: abs_if)
    ultimately show ?thesis by simp
  next
    case mid
    have "round_sig p x = real_of_int (rne x)"
      using "1.prems" mid by (subst round_sig.simps) simp
    moreover have "1 / 2 \<le> x / 2 ^ (p + 1)" using mid(1) by (simp add: field_simps)
    ultimately show ?thesis using rne_error [of x] by linarith
  qed
qed

lemma fl_error: "\<bar>fl p x - x\<bar> \<le> \<bar>x\<bar> / 2 ^ (p + 1)"
proof (cases "x < 0")
  case True
  then show ?thesis using round_sig_error [of "- x" p] by (simp add: fl_def)
next
  case False
  show ?thesis
  proof (cases "x = 0")
    case True
    then show ?thesis by (simp add: fl_def round_sig.simps)
  next
    case nz: False
    then show ?thesis using False round_sig_error [of x p] by (simp add: fl_def)
  qed
qed

lemma fl64_error: "\<bar>x\<bar> \<le> M \<Longrightarrow> \<bar>fl64 x - x\<bar> \<le> M / 2 ^ 53"
proof -
  assume "\<bar>x\<bar> \<le> M"
  then have "\<bar>x\<bar> / 2 ^ 53 \<le> M / 2 ^ 53" by (simp add: divide_right_mono)
  then show ?thesis using fl_error [of 52 x] by (simp add: fl64_def)
qed


lemma fl64_error_scaled:
  assumes "r \<noteq> 0" "\<bar>z\<bar> \<le> M * \<bar>r\<bar>"
  shows "\<bar>fl64 z / r - z / r\<bar> \<le> M / 2 ^ 53"
proof -
  have "\<bar>fl64 z - z\<bar> \<le> (M * \<bar>r\<bar>) / 2 ^ 53" using assms(2) by (rule fl64_error)
  moreover have "\<bar>fl64 z / r - z / r\<bar> = \<bar>fl64 z - z\<bar> / \<bar>r\<bar>"
    by (simp add: diff_divide_distrib [symmetric])
  ultimately show ?thesis using assms(1) by (simp add: field_simps)
qed


lemma round_sig_eval_up:
  assumes "0 < x" "2 ^ p \<le> x * 2 ^ n" "x * 2 ^ n < 2 ^ (p + 1)"
  shows "round_sig p x = real_of_int (rne (x * 2 ^ n)) / 2 ^ n"
  using assms
proof (induction n arbitrary: x)
  case 0
  then show ?case by (subst round_sig.simps) simp
next
  case (Suc n)
  show ?case
  proof (cases "x < 2 ^ p")
    case True
    have nb: "\<not> 2 ^ (p + 1) \<le> x" using True by (simp add: less_le_trans not_le)
    have "round_sig p (2 * x) = real_of_int (rne (2 * x * 2 ^ n)) / 2 ^ n"
      using Suc.prems by (intro Suc.IH) (simp_all add: mult.assoc mult.left_commute)
    moreover have "round_sig p x = round_sig p (2 * x) / 2"
      using Suc.prems(1) True nb by (subst round_sig.simps) simp
    ultimately show ?thesis by (simp add: mult.assoc mult.left_commute)
  next
    case False
    have "x * 2 ^ n < 2 ^ p"
    proof -
      have "x * 2 ^ Suc n < 2 ^ (p + 1)" using Suc.prems(3) .
      then show ?thesis by simp
    qed
    moreover have "x \<le> x * 2 ^ n" using Suc.prems(1) by (simp add: mult_le_cancel_left1)
    ultimately show ?thesis using False by linarith
  qed
qed

lemma round_sig_eval_down:
  assumes "0 < x" "2 ^ p \<le> x / 2 ^ n" "x / 2 ^ n < 2 ^ (p + 1)"
  shows "round_sig p x = real_of_int (rne (x / 2 ^ n)) * 2 ^ n"
  using assms
proof (induction n arbitrary: x)
  case 0
  then show ?case by (subst round_sig.simps) simp
next
  case (Suc n)
  show ?case
  proof (cases "2 ^ (p + 1) \<le> x")
    case True
    have "round_sig p (x / 2) = real_of_int (rne (x / 2 / 2 ^ n)) * 2 ^ n"
      using Suc.prems by (intro Suc.IH) (simp_all add: field_simps)
    moreover have "round_sig p x = 2 * round_sig p (x / 2)"
      using Suc.prems(1) True by (subst round_sig.simps) simp
    ultimately show ?thesis by (simp add: field_simps)
  next
    case False
    have "2 ^ (p + 1) \<le> x / 2 ^ n"
      using Suc.prems(2) by (simp add: field_simps)
    moreover have "x / 2 ^ n \<le> x" using Suc.prems(1) by (simp add: field_simps mult_le_cancel_left1)
    ultimately show ?thesis using False by linarith
  qed
qed


lemma fl64_0 [simp]: "fl64 0 = 0"
  by (simp add: fl64_def fl_def round_sig.simps)

lemma fl32_0 [simp]: "fl32 0 = 0"
  by (simp add: fl32_def fl_def round_sig.simps)

lemma double_to_int_between:
  assumes "real_of_int i < q" "q < real_of_int i + 1" "0 \<le> i"
  shows "double_to_int q = i"
proof -
  have "\<lfloor>q\<rfloor> = i" using assms by linarith
  moreover have "\<not> q < 0" using assms by linarith
  ultimately show ?thesis by (simp add: double_to_int_def)
qed

lemma abs_bound_from:
  fixes a b :: real
  shows "\<bar>a - b\<bar> \<le> e \<Longrightarrow> \<bar>b\<bar> \<le> M \<Longrightarrow> e + M \<le> N \<Longrightarrow> \<bar>a\<bar> \<le> N"
  by linarith

lemma abs_scaled_le:
  fixes z r :: real
  assumes "r \<noteq> 0" "\<bar>z / r\<bar> \<le> M"
  shows "\<bar>z\<bar> \<le> M * \<bar>r\<bar>"
proof -
  have "\<bar>z\<bar> = \<bar>z / r\<bar> * \<bar>r\<bar>" using assms(1) by (simp add: abs_divide)
  also have "\<dots> \<le> M * \<bar>r\<bar>" using assms(2) by (intro mult_right_mono) auto
  finally show ?thesis .
qed

lemma abs_sum_scaled:
  fixes a b :: real
  assumes "\<bar>a\<bar> \<le> A * R" "\<bar>b\<bar> \<le> B * R" "A + B \<le> C" "0 \<le> R"
  shows "\<bar>a + b\<bar> \<le> C * R"
proof -
  have "\<bar>a + b\<bar> \<le> (A + B) * R" using assms(1,2) by (simp add: distrib_right)
  also have "\<dots> \<le> C * R" using assms(3,4) by (rule mult_right_mono)
  finally show ?thesis .
qed

section \<open>Properties of the extension under rounding\<close>








section \<open>Properties of the coordinate transforms\<close>

lemma five_errors:
  fixes c :: real
  shows "\<bar>c1 - c\<bar> \<le> a1 \<Longrightarrow> \<bar>P - c1\<bar> \<le> a2 \<Longrightarrow> \<bar>X - P\<bar> \<le> a3 \<Longrightarrow> \<bar>D - X\<bar> \<le> a4
    \<Longrightarrow> \<bar>q - D\<bar> \<le> a5 \<Longrightarrow> a1 + a2 + a3 + a4 + a5 < h \<Longrightarrow> \<bar>q - c\<bar> < h"
  by linarith

lemma roundtrip_axis:
  assumes r: "r \<noteq> 0" and i: "0 \<le> i" "i < 2 ^ 31" and og: "\<bar>og\<bar> \<le> 2 ^ 50 * \<bar>r\<bar>"
  shows "double_to_int (fl64 (fl64 (fl64 (og + fl64 (r * fl64 (real_of_int i + 0.5))) - og) / r)) = i"
proof -
  define c where "c = real_of_int i + 0.5"
  define c1 where "c1 = fl64 c"
  define p where "p = fl64 (r * c1)"
  define x where "x = fl64 (og + p)"
  define d where "d = fl64 (x - og)"
  define q where "q = fl64 (d / r)"
  have c: "\<bar>c\<bar> \<le> 2 ^ 31" using i by (simp add: c_def)
  have e1: "\<bar>c1 - c\<bar> \<le> 2 ^ 31 / 2 ^ 53"
    unfolding c1_def using c by (rule fl64_error)
  have b1: "\<bar>c1\<bar> \<le> 2 ^ 32" by (rule abs_bound_from [OF e1 c]) simp
  have "\<bar>c1\<bar> * \<bar>r\<bar> \<le> 2 ^ 32 * \<bar>r\<bar>"
    using b1 by (intro mult_right_mono) auto
  then have "\<bar>r * c1\<bar> \<le> 2 ^ 32 * \<bar>r\<bar>"
    by (simp add: abs_mult mult.commute)
  then have "\<bar>p / r - (r * c1) / r\<bar> \<le> 2 ^ 32 / 2 ^ 53"
    unfolding p_def using r by (intro fl64_error_scaled)
  then have e2: "\<bar>p / r - c1\<bar> \<le> 2 ^ 32 / 2 ^ 53" using r by simp
  have b2: "\<bar>p / r\<bar> \<le> 2 ^ 33" by (rule abs_bound_from [OF e2 b1]) simp
  have "\<bar>p\<bar> \<le> 2 ^ 33 * \<bar>r\<bar>" using r b2 by (rule abs_scaled_le)
  with og have "\<bar>og + p\<bar> \<le> 2 ^ 51 * \<bar>r\<bar>" by (rule abs_sum_scaled) simp_all
  then have "\<bar>x / r - (og + p) / r\<bar> \<le> 2 ^ 51 / 2 ^ 53"
    unfolding x_def using r by (intro fl64_error_scaled)
  moreover have "x / r - (og + p) / r = (x - og) / r - p / r"
    by (simp add: diff_divide_distrib add_divide_distrib)
  ultimately have e3: "\<bar>(x - og) / r - p / r\<bar> \<le> 2 ^ 51 / 2 ^ 53" by simp
  have b3: "\<bar>(x - og) / r\<bar> \<le> 2 ^ 34" by (rule abs_bound_from [OF e3 b2]) simp
  have "\<bar>x - og\<bar> \<le> 2 ^ 34 * \<bar>r\<bar>" using r b3 by (rule abs_scaled_le)
  then have e4: "\<bar>d / r - (x - og) / r\<bar> \<le> 2 ^ 34 / 2 ^ 53"
    unfolding d_def using r by (intro fl64_error_scaled)
  have b4: "\<bar>d / r\<bar> \<le> 2 ^ 35" by (rule abs_bound_from [OF e4 b3]) simp
  have e5: "\<bar>q - d / r\<bar> \<le> 2 ^ 35 / 2 ^ 53"
    unfolding q_def using b4 by (rule fl64_error)
  have "\<bar>q - c\<bar> < 1 / 2" by (rule five_errors [OF e1 e2 e3 e4 e5]) simp
  then have "real_of_int i < q" "q < real_of_int i + 1"
    unfolding c_def by linarith+
  then have "double_to_int q = i" using i(1) by (rule double_to_int_between)
  then show ?thesis by (simp add: q_def d_def x_def p_def c1_def c_def)
qed

text \<open>
  Claim C5, on the grid of \<^verbatim>\<open>GridMap(0.1f, 300, 300, (1e17, 0, 0))\<close> at the in-bounds
  index pair \<open>(1, 0)\<close>. The binary64 sum of the origin \<open>99999999999999984\<close> and the offset
  \<open>0.15\<close> is the origin itself, and the index transform returns \<open>(0, 0)\<close>.
\<close>

theorem idx_roundtrip_absorbed:
  "idx_to_xy_fp far_grid 1 0 = (True, 99999999999999984, - (4013110067 / 268435456))
   \<and> xy_to_idx_fp far_grid 99999999999999984 (- (4013110067 / 268435456)) = (True, 0, 0)"
proof -
  have c: "fl64 (3 / 2) = 3 / 2" "fl64 (1 / 2) = 1 / 2"
    by (simp_all add: fl64_def fl_def round_sig_eval_up [where n = 52]
        round_sig_eval_up [where n = 53] rne_def)
  have p: "fl64 (40265319 / 268435456) = 40265319 / 268435456"
    "fl64 (13421773 / 268435456) = 13421773 / 268435456"
    by (simp_all add: fl64_def fl_def round_sig_eval_up [where n = 55]
        round_sig_eval_up [where n = 57] rne_def)
  have x: "fl64 (26843545599999995745298023 / 268435456) = 99999999999999984"
    by (simp add: fl64_def fl_def round_sig_eval_down [where n = 4] rne_def)
  have y: "fl64 (- (4013110067 / 268435456)) = - (4013110067 / 268435456)"
    by (simp add: fl64_def fl_def round_sig_eval_up [where n = 49] rne_def)
  have 1: "idx_to_xy_fp far_grid 1 0 = (True, 99999999999999984, - (4013110067 / 268435456))"
    by (simp add: idx_to_xy_fp_def far_grid_def is_in_border_def c p x y)
  have 2: "xy_to_idx_fp far_grid 99999999999999984 (- (4013110067 / 268435456)) = (True, 0, 0)"
    by (simp add: xy_to_idx_fp_def far_grid_def is_in_border_def c p double_to_int_def)
  show ?thesis using 1 2 by blast
qed

text \<open>
  Claim C5, amended. Round trip between indices and world coordinates: for every
  in-bounds index pair \<open>(ix, iy)\<close> of a grid with non-zero resolution, at most \<open>2 ^ 31\<close>
  columns and rows, and an origin within \<open>2 ^ 50\<close> cells of zero on both axes,
  \<open>idx_to_xy\<close> reports success, and \<open>xy_to_idx\<close> on the coordinates it returns reports
  success and returns \<open>(ix, iy)\<close>.
\<close>

theorem idx_roundtrip_bounded:
  assumes "resolution g \<noteq> 0"
    and "0 \<le> ix" "ix < width g" "0 \<le> iy" "iy < height g"
    and "width g \<le> 2 ^ 31" "height g \<le> 2 ^ 31"
    and "\<bar>vec_x (origin g)\<bar> \<le> 2 ^ 50 * \<bar>resolution g\<bar>"
    and "\<bar>vec_y (origin g)\<bar> \<le> 2 ^ 50 * \<bar>resolution g\<bar>"
  shows "case idx_to_xy_fp g ix iy of
           (ok, x, y) \<Rightarrow> ok \<and> xy_to_idx_fp g x y = (True, ix, iy)"
proof -
  define x where "x = fl64 (vec_x (origin g) + fl64 (resolution g * fl64 (real_of_int ix + 0.5)))"
  define y where "y = fl64 (vec_y (origin g) + fl64 (resolution g * fl64 (real_of_int iy + 0.5)))"
  have ix: "double_to_int (fl64 (fl64 (x - vec_x (origin g)) / resolution g)) = ix"
    unfolding x_def using assms by (intro roundtrip_axis) auto
  have iy: "double_to_int (fl64 (fl64 (y - vec_y (origin g)) / resolution g)) = iy"
    unfolding y_def using assms by (intro roundtrip_axis) auto
  have a: "idx_to_xy_fp g ix iy = (True, x, y)"
    using assms(2-5) by (simp add: idx_to_xy_fp_def x_def y_def is_in_border_def)
  have b: "xy_to_idx_fp g x y = (True, ix, iy)"
    unfolding xy_to_idx_fp_def ix iy using assms(2-5) by (simp add: is_in_border_def)
  show ?thesis by (simp only: a b prod.case simp_thms)
qed

theorem idx_roundtrip_bounded_witness:
  "case idx_to_xy_fp float_grid 57 1 of
     (ok, x, y) \<Rightarrow> ok \<and> xy_to_idx_fp float_grid x y = (True, 57, 1)"
proof -
  have "resolution float_grid \<noteq> 0" "(0::int) \<le> 57" "57 < width float_grid"
    "(0::int) \<le> 1" "1 < height float_grid"
    "width float_grid \<le> 2 ^ 31" "height float_grid \<le> 2 ^ 31"
    "\<bar>vec_x (origin float_grid)\<bar> \<le> 2 ^ 50 * \<bar>resolution float_grid\<bar>"
    "\<bar>vec_y (origin float_grid)\<bar> \<le> 2 ^ 50 * \<bar>resolution float_grid\<bar>"
    by (simp_all add: float_grid_def)
  then show ?thesis by (rule idx_roundtrip_bounded)
qed



text \<open>
  Claim C2, at a point of the default grid half a cell to the left of the origin. The
  claim has \<open>idx_x = floor ((x - origin.x) / resolution) = -1\<close>, which is out of bounds, so
  that the call fails. The conversion to \<^verbatim>\<open>int\<close> truncates toward zero instead: the call
  succeeds with column \<open>0\<close>.
\<close>

theorem xy_to_idx_truncates_toward_zero:
  "xy_to_idx default_grid (- 1505 / 100) (5 / 100) = (True, 0, 150)
   \<and> \<lfloor>(- 1505 / 100 - vec_x (origin default_grid)) / resolution default_grid\<rfloor> = - 1
   \<and> \<not> is_in_border default_grid (- 1) 150"
  by (simp add: xy_to_idx_def default_grid_def double_to_int_def is_in_border_def ceiling_def)

text \<open>
  Claim C6. Boundary-zone detection. When the world-to-index transform fails on the
  position, \<open>is_in_ext_zone\<close> returns \<open>NONE\<close>. When it succeeds with \<open>(idx_x, idx_y)\<close>, the
  result is the bitwise OR of exactly the flags whose comparison holds: \<open>LEFT\<close> iff
  \<open>idx_x < EXT_ZONE\<close>, \<open>RIGHT\<close> iff \<open>idx_x \<ge> width - EXT_ZONE\<close>, \<open>DOWN\<close> iff
  \<open>idx_y < EXT_ZONE\<close>, \<open>TOP\<close> iff \<open>idx_y \<ge> height - EXT_ZONE\<close>.
\<close>

theorem is_in_ext_zone_flags:
  assumes "xy_to_idx g (vec_x pos) (vec_y pos) = (ok, idx_x, idx_y)"
  shows "(\<not> ok \<longrightarrow> is_in_ext_zone g pos = NONE)
       \<and> (ok \<longrightarrow>
            is_in_ext_zone g pos =
              (if idx_x < EXT_ZONE then LEFT else 0)
              OR (if idx_x \<ge> width g - EXT_ZONE then RIGHT else 0)
              OR (if idx_y < EXT_ZONE then DOWN else 0)
              OR (if idx_y \<ge> height g - EXT_ZONE then TOP else 0)
            \<and> (is_in_ext_zone g pos AND LEFT \<noteq> 0 \<longleftrightarrow> idx_x < EXT_ZONE)
            \<and> (is_in_ext_zone g pos AND RIGHT \<noteq> 0 \<longleftrightarrow> idx_x \<ge> width g - EXT_ZONE)
            \<and> (is_in_ext_zone g pos AND DOWN \<noteq> 0 \<longleftrightarrow> idx_y < EXT_ZONE)
            \<and> (is_in_ext_zone g pos AND TOP \<noteq> 0 \<longleftrightarrow> idx_y \<ge> height g - EXT_ZONE))"
  using assms
  by (cases ok)
    (simp_all add: is_in_ext_zone_def pos_to_idx_def NONE_def LEFT_def RIGHT_def DOWN_def TOP_def)

theorem is_in_ext_zone_flags_witness:
  "xy_to_idx sample_grid (- (95 / 100)) (1 / 20) = (True, 20, 1)
   \<and> is_in_ext_zone sample_grid \<lparr>vec_x = - (95 / 100), vec_y = 1 / 20, vec_z = 0\<rparr>
       = LEFT OR RIGHT OR DOWN OR TOP
   \<and> xy_to_idx sample_grid 5 (1 / 20) = (False, 59, 1)
   \<and> is_in_ext_zone sample_grid \<lparr>vec_x = 5, vec_y = 1 / 20, vec_z = 0\<rparr> = NONE"
proof -
  have a: "xy_to_idx sample_grid (vec_x \<lparr>vec_x = - (95 / 100), vec_y = 1 / 20, vec_z = 0\<rparr>)
      (vec_y \<lparr>vec_x = - (95 / 100), vec_y = 1 / 20, vec_z = 0\<rparr>) = (True, 20, 1)"
    by (simp add: xy_to_idx_def sample_grid_def double_to_int_def is_in_border_def)
  have b: "xy_to_idx sample_grid (vec_x \<lparr>vec_x = 5, vec_y = 1 / 20, vec_z = 0\<rparr>)
      (vec_y \<lparr>vec_x = 5, vec_y = 1 / 20, vec_z = 0\<rparr>) = (False, 59, 1)"
    by (simp add: xy_to_idx_def sample_grid_def double_to_int_def is_in_border_def)
  have w: "width sample_grid = 60" "height sample_grid = 2" by (simp_all add: sample_grid_def)
  show ?thesis
    using is_in_ext_zone_flags [OF a] is_in_ext_zone_flags [OF b] a b
    by (simp add: w EXT_ZONE_def LEFT_def RIGHT_def DOWN_def TOP_def NONE_def)
qed

section \<open>Properties of the reset\<close>

lemma reset_loop:
  assumes "0 \<le> i"
  shows "length (for_up i n (\<lambda>i d. d[nat i := reset_value (d ! nat i)]) d) = length d \<and>
     (\<forall>k < length d. int k < n \<longrightarrow>
        for_up i n (\<lambda>i d. d[nat i := reset_value (d ! nat i)]) d ! k
          = (if i \<le> int k then \<lparr>log_odds_val = 0\<rparr> else d ! k))"
  using assms
proof (induction i n "\<lambda>i (d::GridCell list). d[nat i := reset_value (d ! nat i)]" d rule: for_up.induct)
  case (1 i n d)
  show ?case
  proof (cases "i < n")
    case True
    define d' where "d' = d[nat i := reset_value (d ! nat i)]"
    have IH: "length (for_up (i + 1) n (\<lambda>i d. d[nat i := reset_value (d ! nat i)]) d') = length d' \<and>
     (\<forall>k < length d'. int k < n \<longrightarrow>
        for_up (i + 1) n (\<lambda>i d. d[nat i := reset_value (d ! nat i)]) d' ! k
          = (if i + 1 \<le> int k then \<lparr>log_odds_val = 0\<rparr> else d' ! k))"
      unfolding d'_def using True "1.prems" by (intro "1.hyps") auto
    have step: "for_up i n (\<lambda>i d. d[nat i := reset_value (d ! nat i)]) d
        = for_up (i + 1) n (\<lambda>i d. d[nat i := reset_value (d ! nat i)]) d'"
      using True by (simp add: for_up_step d'_def)
    have d': "length d' = length d"
      "\<And>k. k < length d \<Longrightarrow> d' ! k = (if int k = i then \<lparr>log_odds_val = 0\<rparr> else d ! k)"
      using "1.prems" by (auto simp: d'_def reset_value_def nth_list_update)
    show ?thesis unfolding step using IH d' by auto
  next
    case False
    then show ?thesis by (auto simp: for_up_stop)
  qed
qed

lemma reset_loop_all:
  assumes "int (length d) = n"
  shows "for_up 0 n (\<lambda>i d. d[nat i := reset_value (d ! nat i)]) d
           = replicate (nat n) \<lparr>log_odds_val = 0\<rparr>"
  using reset_loop [of 0 n d] assms by (intro nth_equalityI) auto

text \<open>
  Claim C10. Frame condition of \<open>reset_map\<close>. On every grid whose cell count
  \<open>width * height\<close> is not negative (the allocation throws otherwise), \<open>reset_map pos\<close>
  succeeds, leaves resolution, width and height unchanged, sets the origin to
  \<open>(pos.x - resolution * width / 2, pos.y - resolution * height / 2)\<close>, and leaves an array
  of \<open>width * height\<close> cells that all have log-odds \<open>0\<close>, whatever the allocated memory
  held.
\<close>

theorem reset_map_frame:
  assumes "0 \<le> width g * height g"
  shows "case reset_map fresh pos g of
           Inl e \<Rightarrow> False
         | Inr g' \<Rightarrow>
             resolution g' = resolution g \<and> width g' = width g \<and> height g' = height g
             \<and> origin g' = \<lparr>vec_x = vec_x pos - resolution g * real_of_int (width g) / 2,
                            vec_y = vec_y pos - resolution g * real_of_int (height g) / 2\<rparr>
             \<and> map_data g' = Some (replicate (nat (width g * height g)) \<lparr>log_odds_val = 0\<rparr>)"
proof -
  define g1 where "g1 = delete_map_data (set_origin pos g)"
  have g1: "resolution g1 = resolution g" "width g1 = width g" "height g1 = height g"
    "origin g1 = \<lparr>vec_x = vec_x pos - resolution g * real_of_int (width g) / 2,
                  vec_y = vec_y pos - resolution g * real_of_int (height g) / 2\<rparr>"
    by (simp_all add: g1_def delete_map_data_def set_origin_def)
  define d where "d = map fresh [0..<nat (width g * height g)]"
  have alloc: "allocate_map_data fresh g1 = Inr (g1\<lparr>map_data := Some d\<rparr>)"
    using assms by (simp add: allocate_map_data_def g1 d_def)
  have len: "int (length d) = width g * height g" using assms by (simp add: d_def)
  have "reset_map fresh pos g = Inr (reset_map_data (g1\<lparr>map_data := Some d\<rparr>))"
    by (simp add: reset_map_def g1_def [symmetric] alloc)
  also have "reset_map_data (g1\<lparr>map_data := Some d\<rparr>)
      = g1\<lparr>map_data := Some (replicate (nat (width g * height g)) \<lparr>log_odds_val = 0\<rparr>)\<rparr>"
    using reset_loop_all [OF len] by (simp add: reset_map_data_def g1)
  finally show ?thesis by (simp add: g1)
qed

theorem reset_map_frame_witness:
  "reset_map (\<lambda>i. \<lparr>log_odds_val = 9\<rparr>) \<lparr>vec_x = 1, vec_y = 2, vec_z = 0\<rparr> sample_grid
     = Inr \<lparr>resolution = 1 / 10, width = 60, height = 2,
            origin = \<lparr>vec_x = - 2, vec_y = 19 / 10\<rparr>,
            map_data = Some (replicate 120 \<lparr>log_odds_val = 0\<rparr>)\<rparr>"
proof -
  have h: "0 \<le> width sample_grid * height sample_grid" by (simp add: sample_grid_def)
  have v: "resolution sample_grid = 1 / 10" "width sample_grid = 60" "height sample_grid = 2"
    by (simp_all add: sample_grid_def)
  show ?thesis
    using reset_map_frame [OF h, where fresh = "\<lambda>i. \<lparr>log_odds_val = 9\<rparr>"
        and pos = "\<lparr>vec_x = 1, vec_y = 2, vec_z = 0\<rparr>"]
    by (cases "reset_map (\<lambda>i. \<lparr>log_odds_val = 9\<rparr>) \<lparr>vec_x = 1, vec_y = 2, vec_z = 0\<rparr> sample_grid")
       (simp_all add: v)
qed

end
